theory Spec2Isabelle
  imports Main "HOL-Library.AList"
begin

section \<open>JSML: a markup builder (src/JSML.js)\<close>

text \<open>
  The library builds markup trees out of mutable \<open>ElementBuilder\<close> objects.  Each builder
  is reached through a callable handle (a function object whose \<open>build\<close> property is the
  builder); calling the handle feeds its arguments to \<open>parse\<close>, which mutates the builder
  in place.  Builders refer to their children by handle, so the same builder can be shared
  between parents and can be changed after it has been made a child.  The embedding
  therefore keeps the builders in an explicit store and identifies a handle with the
  address of its builder.
\<close>

subsection \<open>Values\<close>

text \<open>
  The JavaScript values the embedding covers.  Primitives are \<open>null\<close>, \<open>undefined\<close>,
  strings, booleans and numbers.  The library never computes with a number, it only
  converts it to a string, so a number is kept as the string ToString gives for it.  An
  array is the finite sequence of its elements.  A plain object is the sequence of its own
  enumerable properties in \<open>for-in\<close> order, with primitive property values.  The only
  functions are the callable handles.
\<close>

type_synonym addr = nat

datatype literal = LStr string | LBool bool | LNum string

datatype prim = PNull | PUndefined | PLit literal

abbreviation PStr :: "string \<Rightarrow> prim" where
  "PStr s \<equiv> PLit (LStr s)"

abbreviation PBool :: "bool \<Rightarrow> prim" where
  "PBool b \<equiv> PLit (LBool b)"

datatype jsval =
    Prim prim
  | Arr "jsval list"
  | Obj "(string \<times> prim) list"
  | Handle addr

text \<open>The abstract operation ToString on primitives, as used by \<open>+\<close> on strings.\<close>

fun ToString :: "prim \<Rightarrow> string" where
  "ToString PNull = ''null''"
| "ToString PUndefined = ''undefined''"
| "ToString (PLit (LStr s)) = s"
| "ToString (PLit (LBool b)) = (if b then ''true'' else ''false'')"
| "ToString (PLit (LNum digits)) = digits"

text \<open>
  \<open>Array.prototype.join\<close> with the empty separator: \<open>null\<close> and \<open>undefined\<close> elements
  contribute the empty string, every other element its ToString.
\<close>

fun join_item :: "prim \<Rightarrow> string" where
  "join_item PNull = []"
| "join_item PUndefined = []"
| "join_item (PLit l) = ToString (PLit l)"

definition join :: "prim list \<Rightarrow> string" where
  "join arr = concat (map join_item arr)"

subsection \<open>Builders and the store\<close>

text \<open>
  A child entry is what \<open>parse\<close> pushes onto \<open>_children\<close>: a primitive other than
  \<open>null\<close> and \<open>undefined\<close> (kept as it is and converted to text only when rendered) or
  a callable handle.
\<close>

datatype child = Text literal | Elem addr

text \<open>
  The fields of a builder.  \<open>isFragment\<close> tells a \<open>FragmentBuilder\<close> from an
  \<open>ElementBuilder\<close>; \<open>tag = None\<close> is the prototype's \<open>_tag: null\<close>;
  \<open>attrs = None\<close> is an \<open>_attrs\<close> that was never assigned and \<open>children = None\<close> the
  prototype's \<open>_children: null\<close>.  An attribute object is kept as the sequence of its
  properties in enumeration order.  Property names are taken not to be array indices, so
  that enumeration order is creation order.
\<close>

record node =
  isFragment :: bool
  tag :: "string option"
  isSelfClosing :: bool
  attrs :: "(string \<times> prim) list option"
  children :: "child list option"

text \<open>\<open>new ElementBuilder(tag, selfClosing)\<close>; the empty string is falsy and leaves \<open>_tag\<close> null.\<close>

definition ElementBuilder :: "string \<Rightarrow> bool \<Rightarrow> node" where
  "ElementBuilder t selfClosing =
     \<lparr>isFragment = False,
      tag = (if t \<noteq> [] then Some t else None),
      isSelfClosing = selfClosing,
      attrs = None,
      children = None\<rparr>"

text \<open>
  \<open>new FragmentBuilder()\<close>: the constructor is empty and the prototype is
  \<open>new ElementBuilder()\<close>, so no field is set.
\<close>

definition FragmentBuilder :: node where
  "FragmentBuilder =
     \<lparr>isFragment = True, tag = None, isSelfClosing = False, attrs = None, children = None\<rparr>"

text \<open>
  The store: every address holds a builder, and \<open>fresh\<close> is the next address
  \<open>new\<close> hands out.  What the cells from \<open>fresh\<close> on hold is immaterial; in the empty
  store it is a fragment builder.
\<close>

record heap =
  cells :: "addr \<Rightarrow> node"
  fresh :: addr

definition alloc :: "heap \<Rightarrow> node \<Rightarrow> heap \<times> addr" where
  "alloc h nd = (h\<lparr>cells := (cells h)(fresh h := nd), fresh := Suc (fresh h)\<rparr>, fresh h)"

definition store :: "heap \<Rightarrow> addr \<Rightarrow> node \<Rightarrow> heap" where
  "store h a nd = h\<lparr>cells := (cells h)(a := nd)\<rparr>"

definition empty_heap :: heap where
  "empty_heap = \<lparr>cells = (\<lambda>_. FragmentBuilder), fresh = 0\<rparr>"

subsection \<open>Argument classification: \<open>parse\<close>\<close>

datatype error = SyntaxError string

definition attrs_of :: "node \<Rightarrow> (string \<times> prim) list" where
  "attrs_of nd = (case attrs nd of None \<Rightarrow> [] | Some m \<Rightarrow> m)"

definition children_of :: "node \<Rightarrow> child list" where
  "children_of nd = (case children nd of None \<Rightarrow> [] | Some cs \<Rightarrow> cs)"

text \<open>
  \<open>for (var attrname in item) this._attrs[attrname] = item[attrname]\<close>: an assignment to
  an existing property keeps its place, a new property goes to the end.
\<close>

definition assign_all :: "(string \<times> prim) list \<Rightarrow> (string \<times> prim) list \<Rightarrow> (string \<times> prim) list" where
  "assign_all m item = foldl (\<lambda>m (attrname, v). AList.update attrname v m) m item"

text \<open>\<open>if (! this._children) this._children = []; this._children.push(item)\<close>\<close>

definition push_child :: "node \<Rightarrow> child \<Rightarrow> node" where
  "push_child nd c = nd\<lparr>children := Some (children_of nd @ [c])\<rparr>"

text \<open>
  \<open>parse\<close> mutates its receiver and may throw half-way through an array, so the result
  carries the receiver's state in both cases: \<open>Inr\<close> after a normal return, \<open>Inl\<close> with the
  error after a throw.  \<open>forEach_parse\<close> is \<open>forEach\<close> with \<open>parse\<close> as callback, which
  stops at the first exception.
\<close>

fun parse :: "node \<Rightarrow> jsval \<Rightarrow> (error \<times> node) + node"
  and forEach_parse :: "node \<Rightarrow> jsval list \<Rightarrow> (error \<times> node) + node" where
  "parse nd (Prim PNull) = Inl (SyntaxError (''Bad argument: '' @ ToString PNull), nd)"
| "parse nd (Prim PUndefined) = Inl (SyntaxError (''Bad argument: '' @ ToString PUndefined), nd)"
| "parse nd (Arr items) = forEach_parse nd items"
| "parse nd (Obj item) = Inr (nd\<lparr>attrs := Some (assign_all (attrs_of nd) item)\<rparr>)"
| "parse nd (Prim (PLit l)) = Inr (push_child nd (Text l))"
| "parse nd (Handle ce) = Inr (push_child nd (Elem ce))"
| "forEach_parse nd [] = Inr nd"
| "forEach_parse nd (item # items) =
     (case parse nd item of
        Inl thrown \<Rightarrow> Inl thrown
      | Inr nd' \<Rightarrow> forEach_parse nd' items)"

subsection \<open>The callable handle\<close>

text \<open>
  Calling the handle \<open>ce\<close> runs \<open>parse\<close> over the arguments with \<open>ce.build\<close> as receiver
  and returns \<open>ce\<close> itself.  A throw leaves the store as it was when the exception was
  raised.
\<close>

definition call :: "heap \<Rightarrow> addr \<Rightarrow> jsval list \<Rightarrow> (error \<times> heap) + (heap \<times> addr)" where
  "call h ce arguments =
     (case forEach_parse (cells h ce) arguments of
        Inl (e, nd) \<Rightarrow> Inl (e, store h ce nd)
      | Inr nd \<Rightarrow> Inr (store h ce nd, ce))"

subsection \<open>String rendering\<close>

text \<open>
  The three steps of \<open>html\<close> build one array and \<open>join\<close> it.  The array holds values, not
  yet strings: \<open>_openTag\<close> puts \<open>this._tag\<close> there as it is (possibly \<open>null\<close>) and
  \<open>_innerHTML\<close> pushes a literal child as it is.
\<close>

definition tag_value :: "node \<Rightarrow> prim" where
  "tag_value nd = (case tag nd of None \<Rightarrow> PNull | Some t \<Rightarrow> PStr t)"

definition attr_parts :: "string \<times> prim \<Rightarrow> prim list" where
  "attr_parts kv =
     PStr ('' '' @ fst kv) #
     (if snd kv \<noteq> PNull then [PStr (''=\"'' @ ToString (snd kv) @ ''\"'')] else [])"

definition openTag :: "node \<Rightarrow> prim list" where
  "openTag nd =
     [PStr ''<'', tag_value nd] @
     (case attrs nd of None \<Rightarrow> [] | Some m \<Rightarrow> concat (map attr_parts m)) @
     [PStr (if isSelfClosing nd then ''/>'' else ''>'')]"

text \<open>
  The loop of \<open>_innerHTML\<close>; \<open>html_of\<close> is \<open>ch.build.html()\<close>, which may fail to return.
\<close>

fun innerHTML_each :: "(addr \<Rightarrow> string option) \<Rightarrow> child list \<Rightarrow> prim list \<Rightarrow> prim list option" where
  "innerHTML_each html_of [] arr = Some arr"
| "innerHTML_each html_of (Elem ce # chs) arr =
     (case html_of ce of
        None \<Rightarrow> None
      | Some s \<Rightarrow> innerHTML_each html_of chs (arr @ [PStr s]))"
| "innerHTML_each html_of (Text l # chs) arr = innerHTML_each html_of chs (arr @ [PLit l])"

definition innerHTML :: "(addr \<Rightarrow> string option) \<Rightarrow> node \<Rightarrow> prim list \<Rightarrow> prim list option" where
  "innerHTML html_of nd arr =
     (case children nd of
        Some chs \<Rightarrow> if \<not> isSelfClosing nd then innerHTML_each html_of chs arr else Some arr
      | None \<Rightarrow> Some arr)"

definition closeTag :: "node \<Rightarrow> prim list \<Rightarrow> prim list" where
  "closeTag nd arr =
     (if \<not> isSelfClosing nd then arr @ [PStr (''</'' @ ToString (tag_value nd) @ ''>'')]
      else arr)"

text \<open>
  \<open>html\<close> recurses through the store, and a builder that is its own descendant makes the
  source recurse until the call stack is exhausted.  The first argument bounds the nesting
  depth of the calls; \<open>None\<close> means that the bound was reached.  A \<open>FragmentBuilder\<close>
  overrides \<open>html\<close> and renders its children only.
\<close>

primrec html :: "nat \<Rightarrow> heap \<Rightarrow> addr \<Rightarrow> string option" where
  "html 0 h a = None"
| "html (Suc n) h a =
     (let this = cells h a in
      if isFragment this then map_option join (innerHTML (html n h) this [])
      else map_option (\<lambda>arr. join (closeTag this arr)) (innerHTML (html n h) this (openTag this)))"

subsection \<open>The host document\<close>

text \<open>
  Modelled from the spec: the host document API (\<open>document.createElement\<close>,
  \<open>setAttribute\<close>, \<open>createTextNode\<close>, \<open>createDocumentFragment\<close>, \<open>appendChild\<close>) is the
  external collaborator of section 6 and is not part of the source.  The operations follow
  the DOM standard where the specification is silent: string arguments are converted with
  ToString, setting an attribute that exists replaces its value in place, and appending a
  document fragment inserts the fragment's children.
\<close>

datatype domnode =
    Element string "(string \<times> string) list" "domnode list"
  | TextNode string
  | DocumentFragment "domnode list"

definition createElement :: "prim \<Rightarrow> domnode" where
  "createElement t = Element (ToString t) [] []"

definition createTextNode :: "prim \<Rightarrow> domnode" where
  "createTextNode p = TextNode (ToString p)"

definition createDocumentFragment :: domnode where
  "createDocumentFragment = DocumentFragment []"

fun setAttribute :: "domnode \<Rightarrow> string \<Rightarrow> prim \<Rightarrow> domnode" where
  "setAttribute (Element t as cs) attrname v = Element t (AList.update attrname (ToString v) as) cs"
| "setAttribute el attrname v = el"

fun inserted :: "domnode \<Rightarrow> domnode list" where
  "inserted (DocumentFragment cs) = cs"
| "inserted d = [d]"

fun appendChild :: "domnode \<Rightarrow> domnode \<Rightarrow> domnode" where
  "appendChild (Element t as cs) ch = Element t as (cs @ inserted ch)"
| "appendChild (DocumentFragment cs) ch = DocumentFragment (cs @ inserted ch)"
| "appendChild (TextNode s) ch = TextNode s"

subsection \<open>Structural rendering\<close>

text \<open>\<open>_domElement\<close>, with the override of \<open>FragmentBuilder\<close>.\<close>

definition domElement :: "node \<Rightarrow> domnode" where
  "domElement this =
     (if isFragment this then createDocumentFragment
      else
        (case attrs this of
           None \<Rightarrow> createElement (tag_value this)
         | Some m \<Rightarrow> foldl (\<lambda>el kv. setAttribute el (fst kv) (snd kv)) (createElement (tag_value this)) m))"

fun domChildren_each :: "(addr \<Rightarrow> domnode option) \<Rightarrow> child list \<Rightarrow> domnode \<Rightarrow> domnode option" where
  "domChildren_each dom_of [] el = Some el"
| "domChildren_each dom_of (Elem ce # chs) el =
     (case dom_of ce of
        None \<Rightarrow> None
      | Some d \<Rightarrow> domChildren_each dom_of chs (appendChild el d))"
| "domChildren_each dom_of (Text l # chs) el =
     domChildren_each dom_of chs (appendChild el (createTextNode (PLit l)))"

definition domChildren :: "(addr \<Rightarrow> domnode option) \<Rightarrow> node \<Rightarrow> domnode \<Rightarrow> domnode option" where
  "domChildren dom_of nd el =
     (case children nd of
        Some chs \<Rightarrow> if \<not> isSelfClosing nd then domChildren_each dom_of chs el else Some el
      | None \<Rightarrow> Some el)"

text \<open>\<open>dom\<close>, bounded in depth like \<open>html\<close>.\<close>

primrec dom_tree :: "nat \<Rightarrow> heap \<Rightarrow> addr \<Rightarrow> domnode option" where
  "dom_tree 0 h a = None"
| "dom_tree (Suc n) h a = (let this = cells h a in domChildren (dom_tree n h) this (domElement this))"

subsection \<open>The registry\<close>

text \<open>
  A \<open>JSML\<close> object is the set of getters \<open>tags\<close> has defined on it: each getter is kept
  as the \<open>args\<close> it closes over.  A getter defined twice under one name is replaced.
  A getter named like a method of the prototype (\<open>tags\<close>, \<open>create\<close>) would hide the
  method; the embedding keeps the methods available.
\<close>

type_synonym jsml = "string \<rightharpoonup> string \<times> bool"

definition parseTag :: "string \<Rightarrow> string \<times> bool" where
  "parseTag t = (if t \<noteq> [] \<and> last t = CHR ''/'' then (butlast t, True) else (t, False))"

definition tags :: "jsml \<Rightarrow> string list \<Rightarrow> jsml" where
  "tags r names = foldl (\<lambda>r t. let args = parseTag t in r(fst args \<mapsto> args)) r names"


text \<open>\<open>callableElement\<close> wraps a new builder in a new handle.\<close>

definition callableElement :: "heap \<Rightarrow> node \<Rightarrow> heap \<times> addr" where
  "callableElement h nd = alloc h nd"

definition create :: "heap \<Rightarrow> string \<Rightarrow> heap \<times> addr" where
  "create h t = (let args = parseTag t in callableElement h (ElementBuilder (fst args) (snd args)))"

definition frag :: "heap \<Rightarrow> heap \<times> addr" where
  "frag h = callableElement h FragmentBuilder"

text \<open>
  Reading the property \<open>name\<close> of the registry: a getter defined by \<open>tags\<close> is an own
  property and goes first; \<open>frag\<close> is a getter of the prototype.  \<open>None\<close> stands for every
  other outcome of the property read.
\<close>

definition access :: "jsml \<Rightarrow> heap \<Rightarrow> string \<Rightarrow> (heap \<times> addr) option" where
  "access r h name =
     (case r name of
        Some args \<Rightarrow> Some (callableElement h (ElementBuilder (fst args) (snd args)))
      | None \<Rightarrow> if name = ''frag'' then Some (frag h) else None)"

subsection \<open>Chained calls and client sessions\<close>

text \<open>
  \<open>ce(args1)(args2)...\<close>: every call is made on what the call before it returned, and a
  throw ends the chain.
\<close>

fun chain :: "heap \<Rightarrow> addr \<Rightarrow> jsval list list \<Rightarrow> (error \<times> heap) + (heap \<times> addr)" where
  "chain h ce [] = Inr (h, ce)"
| "chain h ce (arguments # rest) =
     (case call h ce arguments of
        Inl thrown \<Rightarrow> Inl thrown
      | Inr (h', ce') \<Rightarrow> chain h' ce' rest)"

text \<open>The store a call or a chain leaves behind, whether it returned or threw.\<close>

fun heap_after :: "(error \<times> heap) + (heap \<times> addr) \<Rightarrow> heap" where
  "heap_after (Inl (e, h)) = h"
| "heap_after (Inr (h, ce)) = h"






subsection \<open>Reference notions of the specification\<close>

text \<open>
  The flattened left-to-right sequence of the values an argument list holds outside arrays.
\<close>

fun leaves :: "jsval \<Rightarrow> jsval list"
  and leaves_list :: "jsval list \<Rightarrow> jsval list" where
  "leaves (Arr items) = leaves_list items"
| "leaves (Prim p) = [Prim p]"
| "leaves (Obj item) = [Obj item]"
| "leaves (Handle ce) = [Handle ce]"
| "leaves_list [] = []"
| "leaves_list (v # vs) = leaves v @ leaves_list vs"

fun is_nothing :: "jsval \<Rightarrow> bool" where
  "is_nothing (Prim PNull) = True"
| "is_nothing (Prim PUndefined) = True"
| "is_nothing v = False"

text \<open>No argument is \<open>null\<close> or \<open>undefined\<close>, directly or at any depth inside arrays.\<close>

definition nothing_free :: "jsval list \<Rightarrow> bool" where
  "nothing_free arguments = list_all (\<lambda>v. \<not> is_nothing v) (leaves_list arguments)"

text \<open>The child entry of a literal or a handle; other values are no children.\<close>

fun child_entry :: "jsval \<Rightarrow> child list" where
  "child_entry (Prim (PLit l)) = [Text l]"
| "child_entry (Handle ce) = [Elem ce]"
| "child_entry v = []"

definition flat_children :: "jsval list \<Rightarrow> child list" where
  "flat_children arguments = concat (map child_entry (leaves_list arguments))"


text \<open>
  The text of one attribute in an open tag: a space and the name, and the quoted value
  unless the value is the no-value marker \<open>null\<close>.
\<close>

definition attr_text :: "string \<times> prim \<Rightarrow> string" where
  "attr_text kv =
     '' '' @ fst kv @ (if snd kv = PNull then [] else ''=\"'' @ ToString (snd kv) @ ''\"'')"

definition attrs_text :: "node \<Rightarrow> string" where
  "attrs_text nd = concat (map attr_text (attrs_of nd))"

text \<open>
  The rendered children in order: a literal gives its string form, a handle what the
  renderer gives for it at depth \<open>n\<close>; there is no result when a child has none.
\<close>

fun child_text :: "(addr \<Rightarrow> string option) \<Rightarrow> child \<Rightarrow> string option" where
  "child_text html_of (Text l) = Some (ToString (PLit l))"
| "child_text html_of (Elem ce) = html_of ce"

fun all_results :: "'a option list \<Rightarrow> 'a list option" where
  "all_results [] = Some []"
| "all_results (None # rs) = None"
| "all_results (Some x # rs) = map_option (\<lambda>xs. x # xs) (all_results rs)"

definition rendered_children :: "nat \<Rightarrow> heap \<Rightarrow> node \<Rightarrow> string option" where
  "rendered_children n h nd =
     map_option concat (all_results (map (child_text (html n h)) (children_of nd)))"

fun child_dom :: "(addr \<Rightarrow> domnode option) \<Rightarrow> child \<Rightarrow> domnode list option" where
  "child_dom dom_of (Text l) = Some [TextNode (ToString (PLit l))]"
| "child_dom dom_of (Elem ce) = map_option inserted (dom_of ce)"

definition built_children :: "nat \<Rightarrow> heap \<Rightarrow> node \<Rightarrow> domnode list option" where
  "built_children n h nd =
     map_option concat (all_results (map (child_dom (dom_tree n h)) (children_of nd)))"

text \<open>The text \<open>join\<close> gives for \<open>this._tag\<close>: nothing when the tag is \<open>null\<close>.\<close>

definition tag_text :: "node \<Rightarrow> string" where
  "tag_text nd = (case tag nd of None \<Rightarrow> [] | Some t \<Rightarrow> t)"

text \<open>
  A document node written out in the notation of \<open>html\<close>.  A document node does not
  record whether its element was declared self-closing, so \<open>void\<close> tells which element
  names are written with \<open>/>\<close>.
\<close>

fun linearize :: "(string \<Rightarrow> bool) \<Rightarrow> domnode \<Rightarrow> string" where
  "linearize void (Element t as cs) =
     ''<'' @ t @ concat (map (\<lambda>kv. '' '' @ fst kv @ ''=\"'' @ snd kv @ ''\"'') as) @
     (if void t then ''/>'' else ''>'' @ concat (map (linearize void) cs) @ ''</'' @ t @ ''>'')"
| "linearize void (TextNode s) = s"
| "linearize void (DocumentFragment cs) = concat (map (linearize void) cs)"

text \<open>
  A builder on which the two renderers can be compared: an element has a tag, is
  self-closing exactly if \<open>void\<close> says so, carries each attribute name once and no
  attribute without value; a fragment is not self-closing.
\<close>

definition plain :: "(string \<Rightarrow> bool) \<Rightarrow> node \<Rightarrow> bool" where
  "plain void nd =
     (if isFragment nd then \<not> isSelfClosing nd
      else (case tag nd of None \<Rightarrow> False | Some t \<Rightarrow> void t = isSelfClosing nd) \<and>
           distinct (map fst (attrs_of nd)) \<and>
           list_all (\<lambda>kv. snd kv \<noteq> PNull) (attrs_of nd))"

text \<open>
  A store is ranked when every builder lies above the builders among its children; there
  is then no builder that is its own descendant.
\<close>

definition ranked :: "(addr \<Rightarrow> nat) \<Rightarrow> heap \<Rightarrow> bool" where
  "ranked rank h = (\<forall>a c. Elem c \<in> set (children_of (cells h a)) \<longrightarrow> rank c < rank a)"


subsection \<open>The scenarios of the specification\<close>

text \<open>
  The expressions of the header comment and of the specification's scenarios, evaluated in
  JavaScript's order (callee first, then the arguments from left to right) on a registry
  \<open>r\<close> that has been given the tags.  Each yields the store and the handle the expression
  evaluates to, or nothing if a step throws or an accessor is missing.
\<close>

definition returned :: "(error \<times> heap) + (heap \<times> addr) \<Rightarrow> (heap \<times> addr) option" where
  "returned res = (case res of Inl thrown \<Rightarrow> None | Inr hc \<Rightarrow> Some hc)"

definition render :: "nat \<Rightarrow> (heap \<times> addr) option \<Rightarrow> string option" where
  "render n res = Option.bind res (\<lambda>(h, ce). html n h ce)"

text \<open>\<open>registry.body(registry.br())\<close>\<close>

definition body_br :: "jsml \<Rightarrow> heap \<Rightarrow> (heap \<times> addr) option" where
  "body_br r h =
     Option.bind (access r h ''body'') (\<lambda>(h, body).
     Option.bind (access r h ''br'') (\<lambda>(h, br).
     Option.bind (returned (call h br [])) (\<lambda>(h, br).
     returned (call h body [Handle br]))))"

text \<open>\<open>img({src: "a.png"})({alt: "pic"})\<close> and \<open>img({src: "a.png", alt: "pic"})\<close>\<close>

definition img_chained :: "jsml \<Rightarrow> heap \<Rightarrow> (heap \<times> addr) option" where
  "img_chained r h =
     Option.bind (access r h ''img'') (\<lambda>(h, img).
     returned (chain h img [[Obj [(''src'', PStr ''a.png'')]], [Obj [(''alt'', PStr ''pic'')]]]))"

definition img_combined :: "jsml \<Rightarrow> heap \<Rightarrow> (heap \<times> addr) option" where
  "img_combined r h =
     Option.bind (access r h ''img'') (\<lambda>(h, img).
     returned (call h img [Obj [(''src'', PStr ''a.png''), (''alt'', PStr ''pic'')]]))"

text \<open>\<open>ul([li, li, li])\<close>, \<open>ul(li)(li)(li)\<close> and \<open>ul(li, li, li)\<close>\<close>

definition ul_nested :: "jsml \<Rightarrow> heap \<Rightarrow> (heap \<times> addr) option" where
  "ul_nested r h =
     Option.bind (access r h ''ul'') (\<lambda>(h, ul).
     Option.bind (access r h ''li'') (\<lambda>(h, li1).
     Option.bind (access r h ''li'') (\<lambda>(h, li2).
     Option.bind (access r h ''li'') (\<lambda>(h, li3).
     returned (call h ul [Arr [Handle li1, Handle li2, Handle li3]])))))"

definition ul_chained :: "jsml \<Rightarrow> heap \<Rightarrow> (heap \<times> addr) option" where
  "ul_chained r h =
     Option.bind (access r h ''ul'') (\<lambda>(h, ul).
     Option.bind (access r h ''li'') (\<lambda>(h, li1).
     Option.bind (returned (call h ul [Handle li1])) (\<lambda>(h, ul).
     Option.bind (access r h ''li'') (\<lambda>(h, li2).
     Option.bind (returned (call h ul [Handle li2])) (\<lambda>(h, ul).
     Option.bind (access r h ''li'') (\<lambda>(h, li3).
     returned (call h ul [Handle li3])))))))"

definition ul_flat :: "jsml \<Rightarrow> heap \<Rightarrow> (heap \<times> addr) option" where
  "ul_flat r h =
     Option.bind (access r h ''ul'') (\<lambda>(h, ul).
     Option.bind (access r h ''li'') (\<lambda>(h, li1).
     Option.bind (access r h ''li'') (\<lambda>(h, li2).
     Option.bind (access r h ''li'') (\<lambda>(h, li3).
     returned (call h ul [Handle li1, Handle li2, Handle li3])))))"

section \<open>Properties\<close>

subsection \<open>Classification and calls\<close>

lemma forEach_parse_append:
  "forEach_parse nd (xs @ ys) =
     (case forEach_parse nd xs of Inl thrown \<Rightarrow> Inl thrown | Inr nd' \<Rightarrow> forEach_parse nd' ys)"
  by (induction xs arbitrary: nd) (auto split: sum.splits)

lemma parse_leaves:
  "parse nd v = forEach_parse nd (leaves v)"
  "forEach_parse nd vs = forEach_parse nd (leaves_list vs)"
proof (induction nd v and nd vs rule: parse_forEach_parse.induct)
  case (8 nd item items)
  show ?case
  proof (cases "parse nd item")
    case (Inl t)
    then have "forEach_parse nd (leaves item) = Inl t" using 8(1) by simp
    then show ?thesis using Inl by (simp add: forEach_parse_append)
  next
    case (Inr nd')
    then have "forEach_parse nd (leaves item) = Inr nd'" using 8(1) by simp
    then show ?thesis using Inr 8(2)[OF Inr] by (simp add: forEach_parse_append)
  qed
qed simp_all

lemma children_of_push [simp]: "children_of (push_child nd c) = children_of nd @ [c]"
  by (simp add: push_child_def children_of_def)

lemma children_of_attrs_update [simp]: "children_of (nd\<lparr>attrs := x\<rparr>) = children_of nd"
  by (simp add: children_of_def)

lemma attrs_of_push [simp]: "attrs_of (push_child nd c) = attrs_of nd"
  by (simp add: push_child_def attrs_of_def)

lemma push_child_fields [simp]:
  "isFragment (push_child nd c) = isFragment nd"
  "tag (push_child nd c) = tag nd"
  "isSelfClosing (push_child nd c) = isSelfClosing nd"
  by (simp_all add: push_child_def)

lemma parse_returns:
  "list_all (\<lambda>v. \<not> is_nothing v) (leaves v) \<Longrightarrow>
     \<exists>nd'. parse nd v = Inr nd' \<and>
       children_of nd' = children_of nd @ concat (map child_entry (leaves v))"
  "list_all (\<lambda>v. \<not> is_nothing v) (leaves_list vs) \<Longrightarrow>
     \<exists>nd'. forEach_parse nd vs = Inr nd' \<and>
       children_of nd' = children_of nd @ concat (map child_entry (leaves_list vs))"
proof (induction nd v and nd vs rule: parse_forEach_parse.induct)
  case (8 nd item items)
  from 8(3) have a: "list_all (\<lambda>v. \<not> is_nothing v) (leaves item)"
    and b: "list_all (\<lambda>v. \<not> is_nothing v) (leaves_list items)" by simp_all
  from 8(1)[OF a] obtain nd1 where p1: "parse nd item = Inr nd1"
    and c1: "children_of nd1 = children_of nd @ concat (map child_entry (leaves item))" by blast
  from 8(2)[OF p1 b] obtain nd2 where p2: "forEach_parse nd1 items = Inr nd2"
    and c2: "children_of nd2 = children_of nd1 @ concat (map child_entry (leaves_list items))" by blast
  show ?case using p1 p2 c1 c2 by simp
qed simp_all


lemma store_cells [simp]: "cells (store h a nd) = (cells h)(a := nd)"
  by (simp add: store_def)

lemma store_fresh [simp]: "fresh (store h a nd) = fresh h"
  by (simp add: store_def)

lemma store_store [simp]: "store (store h a nd) a nd' = store h a nd'"
  by (simp add: store_def)

lemma store_same [simp]: "store h a (cells h a) = h"
  by (simp add: store_def)

lemma call_append:
  "call h ce (xs @ ys) =
     (case call h ce xs of Inl thrown \<Rightarrow> Inl thrown | Inr (h', ce') \<Rightarrow> call h' ce' ys)"
  by (simp add: call_def forEach_parse_append split: sum.splits prod.splits)

lemma call_Nil [simp]: "call h ce [] = Inr (h, ce)"
  by (simp add: call_def)

lemma chain_eq_call: "chain h ce argss = call h ce (concat argss)"
  by (induction argss arbitrary: h ce) (auto simp: call_append split: sum.splits)




lemma call_returns:
  assumes "nothing_free arguments"
  shows "\<exists>h'. call h ce arguments = Inr (h', ce) \<and> cells h' = (cells h)(ce := cells h' ce) \<and>
     children_of (cells h' ce) = children_of (cells h ce) @ flat_children arguments"
proof -
  from assms obtain nd' where p: "forEach_parse (cells h ce) arguments = Inr nd'"
    and c: "children_of nd' = children_of (cells h ce) @ flat_children arguments"
    using parse_returns(2)[of arguments "cells h ce"]
    by (auto simp: nothing_free_def flat_children_def)
  then show ?thesis by (simp add: call_def)
qed

lemma parse_throws:
  "\<not> list_all (\<lambda>v. \<not> is_nothing v) (leaves v) \<Longrightarrow>
     \<exists>e nd'. parse nd v = Inl (e, nd') \<and>
       (e = SyntaxError ''Bad argument: null'' \<or> e = SyntaxError ''Bad argument: undefined'') \<and>
       forEach_parse nd (takeWhile (\<lambda>v. \<not> is_nothing v) (leaves v)) = Inr nd'"
  "\<not> list_all (\<lambda>v. \<not> is_nothing v) (leaves_list vs) \<Longrightarrow>
     \<exists>e nd'. forEach_parse nd vs = Inl (e, nd') \<and>
       (e = SyntaxError ''Bad argument: null'' \<or> e = SyntaxError ''Bad argument: undefined'') \<and>
       forEach_parse nd (takeWhile (\<lambda>v. \<not> is_nothing v) (leaves_list vs)) = Inr nd'"
proof (induction nd v and nd vs rule: parse_forEach_parse.induct)
  case (8 nd item items)
  let ?ok = "\<lambda>v. \<not> is_nothing v"
  show ?case
  proof (cases "list_all ?ok (leaves item)")
    case True
    then obtain nd1 where p1: "parse nd item = Inr nd1"
      using parse_returns(1) by blast
    then have f1: "forEach_parse nd (leaves item) = Inr nd1"
      using parse_leaves(1)[of nd item] by simp
    from True 8(3) have "\<not> list_all ?ok (leaves_list items)" by simp
    from 8(2)[OF p1 this] obtain e nd' where
      t: "forEach_parse nd1 items = Inl (e, nd')"
      and e: "e = SyntaxError ''Bad argument: null'' \<or> e = SyntaxError ''Bad argument: undefined''"
      and pre: "forEach_parse nd1 (takeWhile ?ok (leaves_list items)) = Inr nd'"
      by blast
    from True have tw: "takeWhile ?ok (leaves item @ leaves_list items) =
        leaves item @ takeWhile ?ok (leaves_list items)"
      by (simp add: takeWhile_append2 list_all_iff)
    show ?thesis using p1 t e pre f1 by (simp add: tw forEach_parse_append)
  next
    case False
    from 8(1)[OF False] obtain e nd' where
      t: "parse nd item = Inl (e, nd')"
      and e: "e = SyntaxError ''Bad argument: null'' \<or> e = SyntaxError ''Bad argument: undefined''"
      and pre: "forEach_parse nd (takeWhile ?ok (leaves item)) = Inr nd'"
      by blast
    from False have tw: "takeWhile ?ok (leaves item @ leaves_list items) = takeWhile ?ok (leaves item)"
      by (auto simp: takeWhile_append1 list_all_iff)
    show ?thesis using t e pre by (simp add: tw)
  qed
qed simp_all

text \<open>
  Claim C5.  When an argument of a call is \<open>null\<close> or \<open>undefined\<close>, directly or at any
  depth inside array arguments, the call throws the error of \<open>parse\<close> (the source's
  SyntaxError, which the specification names InvalidArgument).  The store it leaves is the
  one a call with exactly the values in front of the first such argument, in flattened
  order, returns with: what was classified before the failure stays applied, and nothing
  behind it is processed.
\<close>

theorem nothing_argument_throws:
  assumes "\<not> nothing_free arguments"
  shows "\<exists>e h'. call h ce arguments = Inl (e, h') \<and>
     (e = SyntaxError ''Bad argument: null'' \<or> e = SyntaxError ''Bad argument: undefined'') \<and>
     call h ce (takeWhile (\<lambda>v. \<not> is_nothing v) (leaves_list arguments)) = Inr (h', ce)"
proof -
  from assms obtain e nd' where
    t: "forEach_parse (cells h ce) arguments = Inl (e, nd')"
    and e: "e = SyntaxError ''Bad argument: null'' \<or> e = SyntaxError ''Bad argument: undefined''"
    and pre: "forEach_parse (cells h ce) (takeWhile (\<lambda>v. \<not> is_nothing v) (leaves_list arguments)) = Inr nd'"
    using parse_throws(2)[of arguments "cells h ce"] by (auto simp: nothing_free_def)
  show ?thesis using t e pre by (simp add: call_def)
qed


theorem nothing_argument_throws_witness:
  "\<not> nothing_free [Prim (PStr ''a''), Arr [Obj [(''k'', PNull)], Arr [Prim PUndefined, Prim (PStr ''b'')]], Prim PNull] \<and>
   call empty_heap 0 [Prim (PStr ''a''), Arr [Obj [(''k'', PNull)], Arr [Prim PUndefined, Prim (PStr ''b'')]], Prim PNull] =
     Inl (SyntaxError ''Bad argument: undefined'',
          store empty_heap 0 (FragmentBuilder\<lparr>attrs := Some [(''k'', PNull)], children := Some [Text (LStr ''a'')]\<rparr>)) \<and>
   call empty_heap 0 [Prim (PStr ''a''), Obj [(''k'', PNull)]] =
     Inr (store empty_heap 0 (FragmentBuilder\<lparr>attrs := Some [(''k'', PNull)], children := Some [Text (LStr ''a'')]\<rparr>), 0)"
  using nothing_argument_throws [of "[Prim (PStr ''a''), Arr [Obj [(''k'', PNull)], Arr [Prim PUndefined, Prim (PStr ''b'')]], Prim PNull]" empty_heap 0]
  by (simp add: nothing_free_def call_def empty_heap_def FragmentBuilder_def push_child_def
      children_of_def attrs_of_def assign_all_def store_def)

lemmas scenario_defs = render_def returned_def access_def callableElement_def alloc_def
  ElementBuilder_def call_def store_def push_child_def children_of_def attrs_of_def
  assign_all_def tags_def parseTag_def innerHTML_def openTag_def closeTag_def tag_value_def
  attr_parts_def join_def

lemma img_scenarios:
  "render (Suc n) (img_chained (tags r [''img/'']) h) = Some ''<img src=\"a.png\" alt=\"pic\"/>''"
  "render (Suc n) (img_combined (tags r [''img/'']) h) = Some ''<img src=\"a.png\" alt=\"pic\"/>''"
  by (simp_all add: img_chained_def img_combined_def scenario_defs)

lemma body_br_scenario:
  "render (Suc (Suc n)) (body_br (tags r [''body'', ''br/'']) h) = Some ''<body><br/></body>''"
  by (simp add: body_br_def scenario_defs)

lemma ul_scenarios:
  "render (Suc (Suc n)) (ul_nested (tags r [''ul'', ''li'']) h) = Some ''<ul><li></li><li></li><li></li></ul>''"
  "render (Suc (Suc n)) (ul_chained (tags r [''ul'', ''li'']) h) = Some ''<ul><li></li><li></li><li></li></ul>''"
  "render (Suc (Suc n)) (ul_flat (tags r [''ul'', ''li'']) h) = Some ''<ul><li></li><li></li><li></li></ul>''"
  by (simp_all add: ul_nested_def ul_chained_def ul_flat_def scenario_defs)

text \<open>
  Claim C2.  A call whose arguments hold no \<open>null\<close> or \<open>undefined\<close> returns, and what it
  returns is the handle that was called.  Chained calls are one call with all the
  arguments: the chain and the combined call give the same result and the same store.
  For a registered self-closing \<open>img\<close>, \<open>img({src: "a.png"})({alt: "pic"})\<close> and
  \<open>img({src: "a.png", alt: "pic"})\<close> both render to \<open><img src="a.png" alt="pic"/>\<close>.
\<close>

theorem call_returns_handle_and_accumulates:
  "(nothing_free arguments \<longrightarrow> (\<exists>h'. call h ce arguments = Inr (h', ce))) \<and>
   chain h ce argss = call h ce (concat argss) \<and>
   render (Suc n) (img_chained (tags r [''img/'']) h) = Some ''<img src=\"a.png\" alt=\"pic\"/>'' \<and>
   render (Suc n) (img_combined (tags r [''img/'']) h) = Some ''<img src=\"a.png\" alt=\"pic\"/>''"
proof -
  have "nothing_free arguments \<longrightarrow> (\<exists>h'. call h ce arguments = Inr (h', ce))"
    using call_returns by blast
  then show ?thesis
    by (simp only: chain_eq_call img_scenarios simp_thms)
qed

theorem call_returns_handle_and_accumulates_witness:
  "nothing_free [Obj [(''src'', PStr ''a.png'')], Arr [Prim (PStr ''x''), Handle 1]] \<and>
   (\<exists>h'. call empty_heap 0 [Obj [(''src'', PStr ''a.png'')], Arr [Prim (PStr ''x''), Handle 1]] = Inr (h', 0))"
  using call_returns_handle_and_accumulates
    [of "[Obj [(''src'', PStr ''a.png'')], Arr [Prim (PStr ''x''), Handle 1]]" empty_heap 0 "[]" 0 Map.empty]
  by (simp add: nothing_free_def)

lemma flat_children_Arr: "flat_children [Arr arguments] = flat_children arguments"
  by (simp add: flat_children_def)

lemma flat_children_singletons:
  "flat_children (concat (map (\<lambda>v. [v]) arguments)) = flat_children arguments"
  by (induction arguments) simp_all

text \<open>
  Claim C3.  However the child arguments reach a handle (flat in one call, inside arrays
  of any depth, or one by one in chained calls), as long as none of them is \<open>null\<close> or
  \<open>undefined\<close> the calls return and the children of the builder afterwards are the
  children before followed by the literals and handles of the arguments in flattened
  left-to-right order.  That sequence is the same for an argument list, for the list
  wrapped in an array, and for the list split into single arguments.
  \<open>ul([li, li, li])\<close>, \<open>ul(li)(li)(li)\<close> and \<open>ul(li, li, li)\<close> all render to
  \<open><ul><li></li><li></li><li></li></ul>\<close>.
\<close>

theorem children_flattened_in_order:
  "(nothing_free (concat argss) \<longrightarrow>
      (\<exists>h'. chain h ce argss = Inr (h', ce) \<and>
         children_of (cells h' ce) = children_of (cells h ce) @ flat_children (concat argss))) \<and>
   flat_children [Arr arguments] = flat_children arguments \<and>
   flat_children (concat (map (\<lambda>v. [v]) arguments)) = flat_children arguments \<and>
   render (Suc (Suc n)) (ul_nested (tags r [''ul'', ''li'']) h0) =
     Some ''<ul><li></li><li></li><li></li></ul>'' \<and>
   render (Suc (Suc n)) (ul_chained (tags r [''ul'', ''li'']) h0) =
     Some ''<ul><li></li><li></li><li></li></ul>'' \<and>
   render (Suc (Suc n)) (ul_flat (tags r [''ul'', ''li'']) h0) =
     Some ''<ul><li></li><li></li><li></li></ul>''"
proof -
  have "nothing_free (concat argss) \<longrightarrow>
      (\<exists>h'. chain h ce argss = Inr (h', ce) \<and>
         children_of (cells h' ce) = children_of (cells h ce) @ flat_children (concat argss))"
    using call_returns[of "concat argss" h ce] by (auto simp: chain_eq_call)
  then show ?thesis
    by (simp only: flat_children_Arr flat_children_singletons ul_scenarios simp_thms)
qed

theorem children_flattened_in_order_witness:
  "nothing_free (concat [[Prim (PStr ''a''), Arr [Arr [Handle 2], Obj [(''k'', PNull)]]], [Prim (PBool True)]]) \<and>
   (\<exists>h'. chain empty_heap 0 [[Prim (PStr ''a''), Arr [Arr [Handle 2], Obj [(''k'', PNull)]]], [Prim (PBool True)]] = Inr (h', 0) \<and>
      children_of (cells h' 0) = [Text (LStr ''a''), Elem 2, Text (LBool True)])"
  using children_flattened_in_order
    [of "[[Prim (PStr ''a''), Arr [Arr [Handle 2], Obj [(''k'', PNull)]]], [Prim (PBool True)]]" empty_heap 0 "[]" 0 Map.empty empty_heap]
  by (simp add: nothing_free_def flat_children_def children_of_def empty_heap_def FragmentBuilder_def)

subsection \<open>String rendering\<close>

lemma join_Nil [simp]: "join [] = []"
  by (simp add: join_def)

lemma join_append [simp]: "join (xs @ ys) = join xs @ join ys"
  by (simp add: join_def)

lemma join_PLit [simp]: "join [PLit l] = ToString (PLit l)"
  by (simp add: join_def)

lemma join_attr_parts: "join (concat (map attr_parts m)) = concat (map attr_text m)"
  by (induction m) (simp_all add: join_def attr_parts_def attr_text_def)

lemma join_openTag:
  "join (openTag nd) =
     ''<'' @ tag_text nd @ attrs_text nd @ (if isSelfClosing nd then ''/>'' else ''>'')"
proof -
  have t: "join [tag_value nd] = tag_text nd"
    by (simp add: join_def tag_value_def tag_text_def split: option.splits)
  have a: "join (case attrs nd of None \<Rightarrow> [] | Some m \<Rightarrow> concat (map attr_parts m)) = attrs_text nd"
    by (simp add: attrs_text_def attrs_of_def join_attr_parts split: option.splits)
  have "openTag nd = [PStr ''<''] @ [tag_value nd] @
      (case attrs nd of None \<Rightarrow> [] | Some m \<Rightarrow> concat (map attr_parts m)) @
      [PStr (if isSelfClosing nd then ''/>'' else ''>'')]"
    by (simp add: openTag_def)
  then have "join (openTag nd) = join [PStr ''<''] @ join [tag_value nd] @
      join (case attrs nd of None \<Rightarrow> [] | Some m \<Rightarrow> concat (map attr_parts m)) @
      join [PStr (if isSelfClosing nd then ''/>'' else ''>'')]"
    by (simp only: join_append)
  then show ?thesis by (simp only: t a) simp
qed

lemma innerHTML_each_join:
  "map_option join (innerHTML_each f chs arr) =
     map_option (\<lambda>ss. join arr @ concat ss) (all_results (map (child_text f) chs))"
proof (induction f chs arr rule: innerHTML_each.induct)
  case (1 f arr)
  then show ?case by simp
next
  case (2 f ce chs arr)
  then show ?case by (cases "f ce") (simp_all add: option.map_comp comp_def)
next
  case (3 f l chs arr)
  then show ?case by (simp add: option.map_comp comp_def)
qed

lemma innerHTML_join:
  "\<not> isSelfClosing nd \<Longrightarrow>
     map_option join (innerHTML (html n h) nd arr) =
       map_option (\<lambda>inner. join arr @ inner) (rendered_children n h nd)"
  by (simp add: innerHTML_def rendered_children_def children_of_def innerHTML_each_join
      option.map_comp comp_def split: option.splits)

lemma html_fragment:
  assumes "isFragment (cells h ce)" "\<not> isSelfClosing (cells h ce)"
  shows "html (Suc n) h ce = rendered_children n h (cells h ce)"
  using assms innerHTML_join[of "cells h ce" n h "[]"]
  by (simp add: Let_def option.map_ident)

lemma html_self_closing:
  assumes "\<not> isFragment (cells h ce)" "isSelfClosing (cells h ce)"
  shows "html (Suc n) h ce = Some (''<'' @ tag_text (cells h ce) @ attrs_text (cells h ce) @ ''/>'')"
  using assms by (simp add: Let_def innerHTML_def closeTag_def join_openTag split: option.splits)

lemma html_element:
  assumes "\<not> isFragment (cells h ce)" "\<not> isSelfClosing (cells h ce)"
  shows "html (Suc n) h ce =
     map_option (\<lambda>inner. ''<'' @ tag_text (cells h ce) @ attrs_text (cells h ce) @ ''>'' @ inner @
        ''</'' @ ToString (tag_value (cells h ce)) @ ''>'') (rendered_children n h (cells h ce))"
proof -
  let ?nd = "cells h ce"
  let ?close = "''</'' @ ToString (tag_value ?nd) @ ''>''"
  have "html (Suc n) h ce =
      map_option (\<lambda>s. s @ ?close) (map_option join (innerHTML (html n h) ?nd (openTag ?nd)))"
    using assms by (simp add: Let_def closeTag_def option.map_comp comp_def)
  also have "\<dots> = map_option (\<lambda>s. s @ ?close)
      (map_option (\<lambda>inner. join (openTag ?nd) @ inner) (rendered_children n h ?nd))"
    by (simp add: innerHTML_join[OF assms(2)])
  finally show ?thesis using assms(2)
    by (simp add: option.map_comp comp_def join_openTag)
qed


lemma innerHTML_each_mono:
  assumes "\<And>c s. f c = Some s \<Longrightarrow> g c = Some s"
  shows "innerHTML_each f chs arr = Some x \<Longrightarrow> innerHTML_each g chs arr = Some x"
proof (induction chs arbitrary: arr)
  case Nil
  then show ?case by simp
next
  case (Cons ch chs)
  show ?case
  proof (cases ch)
    case (Text l)
    with Cons show ?thesis by simp
  next
    case (Elem c)
    with Cons.prems obtain s where s: "f c = Some s"
      and r: "innerHTML_each f chs (arr @ [PStr s]) = Some x"
      by (cases "f c") simp_all
    from assms[OF s] Cons.IH[OF r] Elem show ?thesis by simp
  qed
qed

lemma html_Suc_mono: "html n h ce = Some s \<Longrightarrow> html (Suc n) h ce = Some s"
proof (induction n arbitrary: ce s)
  case 0
  then show ?case by simp
next
  case (Suc n)
  let ?nd = "cells h ce"
  have step: "\<And>arr x. innerHTML (html n h) ?nd arr = Some x \<Longrightarrow>
      innerHTML (html (Suc n) h) ?nd arr = Some x"
    using innerHTML_each_mono[of "html n h" "html (Suc n) h"] Suc.IH
    by (auto simp: innerHTML_def split: option.splits if_splits)
  have unfold: "\<And>k. html (Suc k) h ce =
      (if isFragment ?nd then map_option join (innerHTML (html k h) ?nd [])
       else map_option (\<lambda>arr. join (closeTag ?nd arr)) (innerHTML (html k h) ?nd (openTag ?nd)))"
    by (simp add: Let_def)
  show ?case
  proof (cases "isFragment ?nd")
    case True
    with Suc.prems obtain arr where a: "innerHTML (html n h) ?nd [] = Some arr" and s: "s = join arr"
      unfolding unfold by auto
    from step[OF a] show ?thesis unfolding unfold[of "Suc n"] using True s by simp
  next
    case False
    with Suc.prems obtain arr where a: "innerHTML (html n h) ?nd (openTag ?nd) = Some arr"
      and s: "s = join (closeTag ?nd arr)"
      unfolding unfold by auto
    from step[OF a] show ?thesis unfolding unfold[of "Suc n"] using False s by simp
  qed
qed

lemma html_mono: "n \<le> m \<Longrightarrow> html n h ce = Some s \<Longrightarrow> html m h ce = Some s"
proof (induction m)
  case 0
  then show ?case by simp
next
  case (Suc m)
  show ?case
  proof (cases "n = Suc m")
    case True
    with Suc.prems(2) show ?thesis by (simp only:)
  next
    case False
    with Suc.prems(1) have "n \<le> m" by simp
    from Suc.IH[OF this Suc.prems(2)] show ?thesis by (rule html_Suc_mono)
  qed
qed

lemma innerHTML_each_returns:
  assumes "\<And>c. Elem c \<in> set chs \<Longrightarrow> f c \<noteq> None"
  shows "innerHTML_each f chs arr \<noteq> None"
  using assms
proof (induction chs arbitrary: arr)
  case Nil
  then show ?case by simp
next
  case (Cons ch chs)
  show ?case
  proof (cases ch)
    case (Text l)
    with Cons show ?thesis by simp
  next
    case (Elem c)
    with Cons.prems[of c] obtain s where s: "f c = Some s" by auto
    have "innerHTML_each f chs (arr @ [PStr s]) \<noteq> None"
      using Cons.prems by (intro Cons.IH) simp
    with s Elem show ?thesis by simp
  qed
qed

lemma html_returns:
  assumes "ranked rank h"
  shows "\<exists>s. html (Suc (rank ce)) h ce = Some s"
proof (induction "rank ce" arbitrary: ce rule: less_induct)
  case less
  have kids: "\<And>c. Elem c \<in> set (children_of (cells h ce)) \<Longrightarrow> html (rank ce) h c \<noteq> None"
  proof -
    fix c assume c: "Elem c \<in> set (children_of (cells h ce))"
    then have lt: "rank c < rank ce" using assms by (simp add: ranked_def)
    from less[OF lt] obtain s where "html (Suc (rank c)) h c = Some s" by blast
    then have "html (rank ce) h c = Some s" using lt html_mono[of "Suc (rank c)" "rank ce"] by simp
    then show "html (rank ce) h c \<noteq> None" by simp
  qed
  have "\<And>arr. innerHTML (html (rank ce) h) (cells h ce) arr \<noteq> None"
    using innerHTML_each_returns[of _ "html (rank ce) h"] kids
    by (auto simp: innerHTML_def children_of_def split: option.splits)
  then show ?case by (simp add: Let_def)
qed

subsection \<open>Structural rendering\<close>

lemma domElement_fragment: "isFragment nd \<Longrightarrow> domElement nd = DocumentFragment []"
  by (simp add: domElement_def createDocumentFragment_def)

lemma setAttribute_fold:
  "\<exists>as'. foldl (\<lambda>el kv. setAttribute el (fst kv) (snd kv)) (Element t as []) m = Element t as' []"
  by (induction m arbitrary: as) simp_all

lemma domElement_element:
  "\<not> isFragment nd \<Longrightarrow> \<exists>as. domElement nd = Element (ToString (tag_value nd)) as []"
  using setAttribute_fold[of "ToString (tag_value nd)" "[]"]
  by (auto simp: domElement_def createElement_def split: option.splits)

lemma domChildren_each_fragment:
  "domChildren_each f chs (DocumentFragment cs) =
     map_option (\<lambda>dss. DocumentFragment (cs @ concat dss)) (all_results (map (child_dom f) chs))"
proof (induction chs arbitrary: cs)
  case Nil
  then show ?case by simp
next
  case (Cons ch chs)
  show ?case
  proof (cases ch)
    case (Text l)
    then show ?thesis by (simp add: Cons.IH createTextNode_def option.map_comp comp_def)
  next
    case (Elem c)
    then show ?thesis
      by (cases "f c") (simp_all add: Cons.IH option.map_comp comp_def)
  qed
qed

lemma dom_tree_fragment:
  assumes "isFragment (cells h ce)" "\<not> isSelfClosing (cells h ce)"
  shows "dom_tree (Suc n) h ce = map_option DocumentFragment (built_children n h (cells h ce))"
  using assms
  by (simp add: Let_def domElement_fragment domChildren_def domChildren_each_fragment
      built_children_def children_of_def option.map_comp comp_def split: option.splits)

lemma dom_tree_self_closing:
  assumes "\<not> isFragment (cells h ce)" "isSelfClosing (cells h ce)"
  shows "\<exists>as. dom_tree (Suc n) h ce = Some (Element (ToString (tag_value (cells h ce))) as [])"
  using assms domElement_element[of "cells h ce"]
  by (auto simp: Let_def domChildren_def split: option.splits)

subsection \<open>What a call leaves alone\<close>

lemma parse_fields:
  "isFragment (case_sum snd id (parse nd v)) = isFragment nd \<and>
   tag (case_sum snd id (parse nd v)) = tag nd \<and>
   isSelfClosing (case_sum snd id (parse nd v)) = isSelfClosing nd"
  "isFragment (case_sum snd id (forEach_parse nd vs)) = isFragment nd \<and>
   tag (case_sum snd id (forEach_parse nd vs)) = tag nd \<and>
   isSelfClosing (case_sum snd id (forEach_parse nd vs)) = isSelfClosing nd"
proof (induction nd v and nd vs rule: parse_forEach_parse.induct)
  case (8 nd item items)
  show ?case
  proof (cases "parse nd item")
    case (Inl t)
    with 8(1) show ?thesis by simp
  next
    case (Inr nd1)
    with 8(1) 8(2)[OF Inr] show ?thesis by simp
  qed
qed simp_all

lemma heap_after_call:
  "heap_after (call h ce arguments) = store h ce (case_sum snd id (forEach_parse (cells h ce) arguments))"
  by (cases "forEach_parse (cells h ce) arguments") (auto simp: call_def)

lemma call_fields:
  "isFragment (cells (heap_after (call h ce arguments)) ce) = isFragment (cells h ce)"
  "tag (cells (heap_after (call h ce arguments)) ce) = tag (cells h ce)"
  "isSelfClosing (cells (heap_after (call h ce arguments)) ce) = isSelfClosing (cells h ce)"
  by (simp_all add: heap_after_call parse_fields(2))


subsection \<open>The shape of the rendered output\<close>

text \<open>
  Claim C6.  For a builder with a tag, \<open>html\<close> gives \<open><\<close> and the tag, for each stored
  attribute in order a space and the name, followed by \<open>="value"\<close> unless the value is
  \<open>null\<close>, and then \<open>/>\<close> if the builder is self-closing, otherwise \<open>>\<close>, the rendered
  children and \<open></tag>\<close>; it has a result at depth \<open>n + 1\<close> exactly when the children have
  one at depth \<open>n\<close>.  On a ranked store \<open>html\<close> returns.  After
  \<open>registry.tags("body", "br/")\<close>, \<open>registry.body(registry.br())\<close> renders to
  \<open><body><br/></body>\<close>.
\<close>

theorem html_of_tagged_node:
  "(tag (cells h ce) = Some t \<and> \<not> isFragment (cells h ce) \<longrightarrow>
      html (Suc n) h ce =
        (if isSelfClosing (cells h ce)
         then Some (''<'' @ t @ attrs_text (cells h ce) @ ''/>'')
         else map_option
           (\<lambda>inner. ''<'' @ t @ attrs_text (cells h ce) @ ''>'' @ inner @ ''</'' @ t @ ''>'')
           (rendered_children n h (cells h ce)))) \<and>
   (ranked rank h \<longrightarrow> (\<exists>s. html (Suc (rank ce)) h ce = Some s)) \<and>
   render (Suc (Suc n)) (body_br (tags r [''body'', ''br/'']) h0) = Some ''<body><br/></body>''"
proof -
  have shape: "html (Suc n) h ce =
        (if isSelfClosing (cells h ce)
         then Some (''<'' @ t @ attrs_text (cells h ce) @ ''/>'')
         else map_option
           (\<lambda>inner. ''<'' @ t @ attrs_text (cells h ce) @ ''>'' @ inner @ ''</'' @ t @ ''>'')
           (rendered_children n h (cells h ce)))"
    if t: "tag (cells h ce) = Some t" and f: "\<not> isFragment (cells h ce)"
  proof (cases "isSelfClosing (cells h ce)")
    case True
    with html_self_closing[OF f True, of n] t show ?thesis by (simp add: tag_text_def)
  next
    case False
    with html_element[OF f False, of n] t show ?thesis by (simp add: tag_text_def tag_value_def)
  qed
  show ?thesis using shape html_returns body_br_scenario by blast
qed

theorem html_of_tagged_node_witness:
  "tag (cells (store (store empty_heap 0 (push_child (ElementBuilder ''body'' False) (Elem 1))) 1
         (ElementBuilder ''br'' True)) 0) = Some ''body'' \<and>
   \<not> isFragment (cells (store (store empty_heap 0 (push_child (ElementBuilder ''body'' False) (Elem 1))) 1
         (ElementBuilder ''br'' True)) 0) \<and>
   ranked (\<lambda>a. if a = 0 then 1 else 0)
     (store (store empty_heap 0 (push_child (ElementBuilder ''body'' False) (Elem 1))) 1
         (ElementBuilder ''br'' True)) \<and>
   html (Suc (Suc 0))
     (store (store empty_heap 0 (push_child (ElementBuilder ''body'' False) (Elem 1))) 1
         (ElementBuilder ''br'' True)) 0 = Some ''<body><br/></body>''"
  using html_of_tagged_node
    [of "store (store empty_heap 0 (push_child (ElementBuilder ''body'' False) (Elem 1))) 1
         (ElementBuilder ''br'' True)" 0 "''body''" "Suc 0" "\<lambda>a. if a = 0 then 1 else 0" Map.empty empty_heap]
  by (simp add: ranked_def empty_heap_def FragmentBuilder_def ElementBuilder_def push_child_def
      children_of_def attrs_of_def attrs_text_def rendered_children_def innerHTML_def openTag_def
      closeTag_def tag_value_def join_def)

text \<open>
  Claim C7.  A self-closing builder renders to its open tag ending in \<open>/>\<close> and nothing
  else, and its document node has no children, whatever its children are: replacing the
  children changes neither output.  A call that supplies children to it returns like any
  other call and appends them to the builder, which stays self-closing; they appear in
  neither rendering.
\<close>

theorem self_closing_drops_children:
  "isSelfClosing (cells h ce) \<and> \<not> isFragment (cells h ce) \<longrightarrow>
     html (Suc n) h ce = Some (''<'' @ tag_text (cells h ce) @ attrs_text (cells h ce) @ ''/>'') \<and>
     (\<exists>as. dom_tree (Suc n) h ce = Some (Element (ToString (tag_value (cells h ce))) as [])) \<and>
     html (Suc n) (store h ce ((cells h ce)\<lparr>children := chs\<rparr>)) ce = html (Suc n) h ce \<and>
     dom_tree (Suc n) (store h ce ((cells h ce)\<lparr>children := chs\<rparr>)) ce = dom_tree (Suc n) h ce \<and>
     (nothing_free arguments \<longrightarrow>
        (\<exists>h'. call h ce arguments = Inr (h', ce) \<and>
           children_of (cells h' ce) = children_of (cells h ce) @ flat_children arguments \<and>
           html (Suc n) h' ce =
             Some (''<'' @ tag_text (cells h ce) @ attrs_text (cells h' ce) @ ''/>'') \<and>
           (\<exists>as. dom_tree (Suc n) h' ce = Some (Element (ToString (tag_value (cells h ce))) as []))))"
proof (intro impI, elim conjE)
  assume sc: "isSelfClosing (cells h ce)" and nf: "\<not> isFragment (cells h ce)"
  let ?nd = "cells h ce"
  let ?h2 = "store h ce (?nd\<lparr>children := chs\<rparr>)"
  have a: "html (Suc n) h ce = Some (''<'' @ tag_text ?nd @ attrs_text ?nd @ ''/>'')"
    using html_self_closing[OF nf sc] .
  have b: "\<exists>as. dom_tree (Suc n) h ce = Some (Element (ToString (tag_value ?nd)) as [])"
    using dom_tree_self_closing[OF nf sc] .
  have sc2: "isSelfClosing (cells ?h2 ce)" and nf2: "\<not> isFragment (cells ?h2 ce)"
    using sc nf by simp_all
  have c: "html (Suc n) ?h2 ce = html (Suc n) h ce"
    unfolding a html_self_closing[OF nf2 sc2]
    by (simp add: tag_text_def attrs_text_def attrs_of_def)
  have d: "dom_tree (Suc n) ?h2 ce = dom_tree (Suc n) h ce"
    using sc by (simp add: Let_def domChildren_def domElement_def tag_value_def split: option.splits)
  have e: "\<exists>h'. call h ce arguments = Inr (h', ce) \<and>
           children_of (cells h' ce) = children_of ?nd @ flat_children arguments \<and>
           html (Suc n) h' ce = Some (''<'' @ tag_text ?nd @ attrs_text (cells h' ce) @ ''/>'') \<and>
           (\<exists>as. dom_tree (Suc n) h' ce = Some (Element (ToString (tag_value ?nd)) as []))"
    if free: "nothing_free arguments"
  proof -
    from call_returns[OF free, of h ce] obtain h' where
      r: "call h ce arguments = Inr (h', ce)"
      and k: "children_of (cells h' ce) = children_of ?nd @ flat_children arguments"
      by blast
    have h': "heap_after (call h ce arguments) = h'" by (simp add: r)
    have sc': "isSelfClosing (cells h' ce)" and nf': "\<not> isFragment (cells h' ce)"
      and tg: "tag (cells h' ce) = tag ?nd"
      using call_fields[of h ce arguments] sc nf by (simp_all add: h')
    have "html (Suc n) h' ce = Some (''<'' @ tag_text ?nd @ attrs_text (cells h' ce) @ ''/>'')"
      using html_self_closing[OF nf' sc', of n] tg by (simp add: tag_text_def)
    moreover have "\<exists>as. dom_tree (Suc n) h' ce = Some (Element (ToString (tag_value ?nd)) as [])"
      using dom_tree_self_closing[OF nf' sc', of n] tg by (simp add: tag_value_def)
    ultimately show ?thesis using r k by blast
  qed
  show "html (Suc n) h ce = Some (''<'' @ tag_text ?nd @ attrs_text ?nd @ ''/>'') \<and>
     (\<exists>as. dom_tree (Suc n) h ce = Some (Element (ToString (tag_value ?nd)) as [])) \<and>
     html (Suc n) ?h2 ce = html (Suc n) h ce \<and>
     dom_tree (Suc n) ?h2 ce = dom_tree (Suc n) h ce \<and>
     (nothing_free arguments \<longrightarrow>
        (\<exists>h'. call h ce arguments = Inr (h', ce) \<and>
           children_of (cells h' ce) = children_of ?nd @ flat_children arguments \<and>
           html (Suc n) h' ce = Some (''<'' @ tag_text ?nd @ attrs_text (cells h' ce) @ ''/>'') \<and>
           (\<exists>as. dom_tree (Suc n) h' ce = Some (Element (ToString (tag_value ?nd)) as []))))"
    using a b c d e by blast
qed


theorem self_closing_drops_children_witness:
  "isSelfClosing (cells (store empty_heap 0 (ElementBuilder ''br'' True)) 0) \<and>
   \<not> isFragment (cells (store empty_heap 0 (ElementBuilder ''br'' True)) 0) \<and>
   nothing_free [Prim (PStr ''dropped''), Obj [(''id'', PStr ''x'')], Handle 0] \<and>
   (\<exists>h'. call (store empty_heap 0 (ElementBuilder ''br'' True)) 0
            [Prim (PStr ''dropped''), Obj [(''id'', PStr ''x'')], Handle 0] = Inr (h', 0) \<and>
      children_of (cells h' 0) = [Text (LStr ''dropped''), Elem 0] \<and>
      html (Suc 0) h' 0 = Some ''<br id=\"x\"/>'' \<and>
      (\<exists>as. dom_tree (Suc 0) h' 0 = Some (Element ''br'' as [])))"
proof -
  let ?h = "store empty_heap 0 (ElementBuilder ''br'' True)"
  let ?args = "[Prim (PStr ''dropped''), Obj [(''id'', PStr ''x'')], Handle 0]"
  have hyp: "isSelfClosing (cells ?h 0) \<and> \<not> isFragment (cells ?h 0)"
    by (simp add: ElementBuilder_def)
  have free: "nothing_free ?args"
    by (simp add: nothing_free_def)
  from self_closing_drops_children[of ?h 0 0 None ?args] hyp free
  obtain h' where r: "call ?h 0 ?args = Inr (h', 0)"
    and k: "children_of (cells h' 0) = children_of (cells ?h 0) @ flat_children ?args"
    and s: "html (Suc 0) h' 0 = Some (''<'' @ tag_text (cells ?h 0) @ attrs_text (cells h' 0) @ ''/>'')"
    and d: "\<exists>as. dom_tree (Suc 0) h' 0 = Some (Element (ToString (tag_value (cells ?h 0))) as [])"
    by blast
  from r have h': "h' = store ?h 0 ((ElementBuilder ''br'' True)
      \<lparr>attrs := Some [(''id'', PStr ''x'')], children := Some [Text (LStr ''dropped''), Elem 0]\<rparr>)"
    by (simp add: call_def push_child_def children_of_def attrs_of_def assign_all_def
        ElementBuilder_def)
  have "children_of (cells h' 0) = [Text (LStr ''dropped''), Elem 0]"
    using k by (simp add: flat_children_def children_of_def ElementBuilder_def)
  moreover have "html (Suc 0) h' 0 = Some ''<br id=\"x\"/>''"
    using s by (simp add: h' tag_text_def attrs_text_def attrs_of_def attr_text_def ElementBuilder_def)
  moreover have "\<exists>as. dom_tree (Suc 0) h' 0 = Some (Element ''br'' as [])"
    using d by (simp add: tag_value_def ElementBuilder_def)
  ultimately show ?thesis using hyp free r by blast
qed

text \<open>
  Claim C8.  For a fragment builder, \<open>html\<close> is the concatenation of the rendered children
  and nothing more, and \<open>dom\<close> is a document fragment holding the children's nodes: a
  node without tag and without attributes, even if the builder was given attributes.  The
  fragment accessor creates such a builder, and calls on it keep it one.
\<close>

theorem fragment_renders_children_only:
  "(isFragment (cells h ce) \<and> \<not> isSelfClosing (cells h ce) \<longrightarrow>
      html (Suc n) h ce = rendered_children n h (cells h ce) \<and>
      dom_tree (Suc n) h ce = map_option DocumentFragment (built_children n h (cells h ce))) \<and>
   isFragment (cells (fst (frag h)) (snd (frag h))) \<and>
   \<not> isSelfClosing (cells (fst (frag h)) (snd (frag h))) \<and>
   isFragment (cells (heap_after (call h ce arguments)) ce) = isFragment (cells h ce) \<and>
   isSelfClosing (cells (heap_after (call h ce arguments)) ce) = isSelfClosing (cells h ce)"
proof -
  have "isFragment (cells (fst (frag h)) (snd (frag h))) \<and>
      \<not> isSelfClosing (cells (fst (frag h)) (snd (frag h)))"
    by (simp add: frag_def callableElement_def alloc_def FragmentBuilder_def)
  then show ?thesis
    using html_fragment[of h ce n] dom_tree_fragment[of h ce n] call_fields[of h ce arguments]
    by blast
qed

theorem fragment_renders_children_only_witness:
  "isFragment (cells (store (store empty_heap 0
       (FragmentBuilder\<lparr>attrs := Some [(''id'', PStr ''x'')],
          children := Some [Text (LStr ''a''), Elem 1]\<rparr>)) 1 (ElementBuilder ''b'' False)) 0) \<and>
   \<not> isSelfClosing (cells (store (store empty_heap 0
       (FragmentBuilder\<lparr>attrs := Some [(''id'', PStr ''x'')],
          children := Some [Text (LStr ''a''), Elem 1]\<rparr>)) 1 (ElementBuilder ''b'' False)) 0) \<and>
   html (Suc (Suc 0)) (store (store empty_heap 0
       (FragmentBuilder\<lparr>attrs := Some [(''id'', PStr ''x'')],
          children := Some [Text (LStr ''a''), Elem 1]\<rparr>)) 1 (ElementBuilder ''b'' False)) 0
     = Some ''a<b></b>'' \<and>
   dom_tree (Suc (Suc 0)) (store (store empty_heap 0
       (FragmentBuilder\<lparr>attrs := Some [(''id'', PStr ''x'')],
          children := Some [Text (LStr ''a''), Elem 1]\<rparr>)) 1 (ElementBuilder ''b'' False)) 0
     = Some (DocumentFragment [TextNode ''a'', Element ''b'' [] []])"
  using fragment_renders_children_only
    [of "store (store empty_heap 0
       (FragmentBuilder\<lparr>attrs := Some [(''id'', PStr ''x'')],
          children := Some [Text (LStr ''a''), Elem 1]\<rparr>)) 1 (ElementBuilder ''b'' False)" 0 "Suc 0" "[]"]
  by (simp add: FragmentBuilder_def ElementBuilder_def rendered_children_def built_children_def
      children_of_def innerHTML_def openTag_def closeTag_def tag_value_def join_def
      domChildren_def domElement_def createElement_def)

subsection \<open>The registry and fresh builders\<close>
















subsection \<open>Rendering and the store\<close>




subsection \<open>The two renderers compared\<close>

lemma linearize_inserted: "concat (map (linearize void) (inserted d)) = linearize void d"
  by (cases d) simp_all

lemma setAttribute_fold_distinct:
  "distinct (map fst m) \<Longrightarrow> set (map fst m) \<inter> set (map fst as) = {} \<Longrightarrow>
     foldl (\<lambda>el kv. setAttribute el (fst kv) (snd kv)) (Element t as []) m =
       Element t (as @ map (\<lambda>kv. (fst kv, ToString (snd kv))) m) []"
proof (induction m arbitrary: as)
  case Nil
  then show ?case by simp
next
  case (Cons kv m)
  have fresh: "fst kv \<notin> fst ` set as" using Cons.prems(2) by auto
  then have u: "AList.update (fst kv) (ToString (snd kv)) as = as @ [(fst kv, ToString (snd kv))]"
    by (induction as) auto
  have d: "distinct (map fst m)" and i: "set (map fst m) \<inter> set (map fst (as @ [(fst kv, ToString (snd kv))])) = {}"
    using Cons.prems by auto
  show ?case using Cons.IH[OF d i] by (simp add: u)
qed

lemma domElement_plain:
  assumes "\<not> isFragment nd" "tag nd = Some t" "distinct (map fst (attrs_of nd))"
  shows "domElement nd = Element t (map (\<lambda>kv. (fst kv, ToString (snd kv))) (attrs_of nd)) []"
  using assms setAttribute_fold_distinct[of "attrs_of nd" "[]" t]
  by (simp add: domElement_def createElement_def tag_value_def attrs_of_def split: option.splits)

lemma domChildren_each_element:
  "domChildren_each f chs (Element t as cs) =
     map_option (\<lambda>dss. Element t as (cs @ concat dss)) (all_results (map (child_dom f) chs))"
proof (induction chs arbitrary: cs)
  case Nil
  then show ?case by simp
next
  case (Cons ch chs)
  show ?case
  proof (cases ch)
    case (Text l)
    then show ?thesis by (simp add: Cons.IH createTextNode_def option.map_comp comp_def)
  next
    case (Elem c)
    then show ?thesis
      by (cases "f c") (simp_all add: Cons.IH option.map_comp comp_def)
  qed
qed

lemma children_agree:
  assumes "\<And>c. map_option (linearize void) (f c) = g c"
  shows "map_option (\<lambda>dss. concat (map (linearize void) (concat dss))) (all_results (map (child_dom f) chs)) =
     map_option concat (all_results (map (child_text g) chs))"
proof (induction chs)
  case Nil
  then show ?case by simp
next
  case (Cons ch chs)
  show ?case
  proof (cases ch)
    case (Text l)
    then show ?thesis
      using Cons.IH
      by (cases "all_results (map (child_dom f) chs)";
          cases "all_results (map (child_text g) chs)") simp_all
  next
    case (Elem c)
    show ?thesis
    proof (cases "f c")
      case None
      with assms[of c] Elem show ?thesis by simp
    next
      case (Some d)
      with assms[of c] have g: "g c = Some (linearize void d)" by simp
      show ?thesis
        using Cons.IH Elem Some g
        by (cases "all_results (map (child_dom f) chs)";
            cases "all_results (map (child_text g) chs)") (simp_all add: linearize_inserted)
    qed
  qed
qed

lemma linearize_plain_element:
  assumes "list_all (\<lambda>kv. snd kv \<noteq> PNull) m"
  shows "linearize void (Element t (map (\<lambda>kv. (fst kv, ToString (snd kv))) m) cs) =
     ''<'' @ t @ concat (map attr_text m) @
     (if void t then ''/>'' else ''>'' @ concat (map (linearize void) cs) @ ''</'' @ t @ ''>'')"
proof -
  have "concat (map ((\<lambda>kv. '' '' @ fst kv @ ''=\"'' @ snd kv @ ''\"'') \<circ>
      (\<lambda>kv. (fst kv, ToString (snd kv)))) m) = concat (map attr_text m)"
    using assms by (induction m) (simp_all add: attr_text_def)
  then show ?thesis by simp
qed

lemma renderers_agree:
  assumes "\<And>a. plain void (cells h a)"
  shows "map_option (linearize void) (dom_tree n h ce) = html n h ce"
proof (induction n arbitrary: ce)
  case 0
  then show ?case by simp
next
  case (Suc n)
  let ?nd = "cells h ce"
  have kids: "map_option (\<lambda>ds. concat (map (linearize void) ds)) (built_children n h ?nd) =
      rendered_children n h ?nd"
    using children_agree[of void "dom_tree n h" "html n h", OF Suc.IH]
    by (simp add: built_children_def rendered_children_def option.map_comp comp_def)
  show ?case
  proof (cases "isFragment ?nd")
    case True
    with assms[of ce] have nsc: "\<not> isSelfClosing ?nd" by (simp add: plain_def)
    show ?thesis
      using kids by (simp only: dom_tree_fragment[OF True nsc] html_fragment[OF True nsc])
        (simp add: option.map_comp comp_def)
  next
    case False
    with assms[of ce] obtain t where t: "tag ?nd = Some t" and v: "void t = isSelfClosing ?nd"
      and d: "distinct (map fst (attrs_of ?nd))"
      and nn: "list_all (\<lambda>kv. snd kv \<noteq> PNull) (attrs_of ?nd)"
      by (auto simp: plain_def split: option.splits)
    note el = domElement_plain[OF False t d]
    show ?thesis
    proof (cases "isSelfClosing ?nd")
      case True
      have "dom_tree (Suc n) h ce = Some (domElement ?nd)"
        using True by (simp add: Let_def domChildren_def split: option.splits)
      then show ?thesis
        using html_self_closing[OF False True, of n] v True t
        by (simp add: el linearize_plain_element[OF nn] attrs_text_def tag_text_def
            del: linearize.simps(1))
    next
      case nsc: False
      have "dom_tree (Suc n) h ce =
          map_option (\<lambda>ds. Element t (map (\<lambda>kv. (fst kv, ToString (snd kv))) (attrs_of ?nd)) ds)
            (built_children n h ?nd)"
        using nsc
        by (simp add: Let_def el domChildren_def domChildren_each_element built_children_def
            children_of_def option.map_comp comp_def split: option.splits)
      then show ?thesis
        using html_element[OF False nsc, of n] v nsc t kids[symmetric]
        by (simp add: linearize_plain_element[OF nn] attrs_text_def tag_text_def tag_value_def
            option.map_comp comp_def del: linearize.simps(1))
    qed
  qed
qed

text \<open>
  Claim C1.  On plain builders the document node, written out, is the string of \<open>html\<close>
  (\<open>renderers_agree\<close>).  The two renderers do not agree on an attribute whose value is
  \<open>null\<close>: \<open>_openTag\<close> tests for it and writes the bare name, \<open>_domElement\<close> passes it
  to \<open>setAttribute\<close>, which stores the string \<open>null\<close>.  For
  \<open>create("input/")({disabled: null})\<close> the string is \<open><input disabled/>\<close> and the
  document node carries \<open>disabled="null"\<close>.
\<close>

theorem null_attribute_renders_differently:
  "(case create empty_heap ''input/'' of
      (h1, input) \<Rightarrow>
        (case call h1 input [Obj [(''disabled'', PNull)]] of
           Inl thrown \<Rightarrow> False
         | Inr (h2, ce) \<Rightarrow>
             html (Suc 0) h2 ce = Some ''<input disabled/>'' \<and>
             dom_tree (Suc 0) h2 ce = Some (Element ''input'' [(''disabled'', ''null'')] [])))"
  by (simp add: create_def parseTag_def callableElement_def alloc_def empty_heap_def
      ElementBuilder_def call_def store_def attrs_of_def assign_all_def innerHTML_def
      openTag_def closeTag_def tag_value_def attr_parts_def join_def domChildren_def
      domElement_def createElement_def)

end
